theory Spec2Isabelle
  imports Complex_Main
begin

section \<open>JavaScript values\<close>

text \<open>
  The handlers of the editor test values for truthiness and compare them with
  \<^verbatim>\<open>!==\<close>. Only the value shapes that reach those tests are modelled.
\<close>

datatype jsval = JUndefined | JNull | JBool bool | JStr string

fun truthy :: "jsval \<Rightarrow> bool" where
  "truthy JUndefined = False"
| "truthy JNull = False"
| "truthy (JBool b) = b"
| "truthy (JStr s) = (s \<noteq> [])"

text \<open>\<^verbatim>\<open>String(v)\<close> on the modelled values.\<close>

fun String_js :: "jsval \<Rightarrow> string" where
  "String_js JUndefined = ''undefined''"
| "String_js JNull = ''null''"
| "String_js (JBool b) = (if b then ''true'' else ''false'')"
| "String_js (JStr s) = s"

section \<open>The panning extension (ext-panning.js)\<close>

text \<open>
  The part of the editor the two mouse handlers read and write: the canvas mode
  and the two flags that \<^verbatim>\<open>editor.setPanning\<close> assigns
  (\<^verbatim>\<open>svgCanvas.spaceKey = keypan = active\<close>). The calls of
  \<^verbatim>\<open>setPanning\<close> are logged with their argument.
\<close>

record pan_state =
  mode :: string
  spaceKey :: bool
  keypan :: bool
  setPanning_calls :: "bool list"

definition setPanning :: "bool \<Rightarrow> pan_state \<Rightarrow> pan_state" where
  "setPanning active s =
     s\<lparr>spaceKey := active, keypan := active,
       setPanning_calls := setPanning_calls s @ [active]\<rparr>"

text \<open>
  What a handler returns: \<^verbatim>\<open>undefined\<close>, \<^verbatim>\<open>{started: b}\<close> or
  \<^verbatim>\<open>{keep: b, element: e}\<close> (the element is \<^verbatim>\<open>null\<close> or an id).
\<close>

datatype ext_result = RUndefined | RStarted bool | RKeep bool "string option"

definition mouseDown :: "pan_state \<Rightarrow> ext_result \<times> pan_state" where
  "mouseDown s =
     (if mode s = ''ext-panning'' then (RStarted True, setPanning True s)
      else (RUndefined, s))"

definition mouseUp :: "pan_state \<Rightarrow> ext_result \<times> pan_state" where
  "mouseUp s =
     (if mode s = ''ext-panning'' then (RKeep False None, setPanning False s)
      else (RUndefined, s))"

section \<open>Loading an SVG string (svgedit.js, loadSvgString)\<close>

datatype js_error = Error string | TypeError string

datatype ui_effect = Alert string

text \<open>
  The second parameter is destructured with a default: \<^verbatim>\<open>{noAlert} = {}\<close>.
  \<open>None\<close> is the omitted argument, for which \<^verbatim>\<open>noAlert\<close> is undefined.
\<close>

record load_opts =
  noAlert :: jsval

definition noAlert_of :: "load_opts option \<Rightarrow> jsval" where
  "noAlert_of opts = (case opts of None \<Rightarrow> JUndefined | Some r \<Rightarrow> noAlert r)"

text \<open>
  \<^verbatim>\<open>svgCanvas.setSvgString\<close> and the message
  \<^verbatim>\<open>uiStrings.notification.errorLoadingSVG\<close> belong to the canvas and the
  locale; they are parameters. The result is the list of alerts shown, in order,
  and either the thrown error or the normal return.
\<close>

definition loadSvgString ::
  "(string \<Rightarrow> jsval) \<Rightarrow> string \<Rightarrow> string \<Rightarrow> load_opts option \<Rightarrow> ui_effect list \<times> (js_error + unit)"
where
  "loadSvgString setSvgString errorLoadingSVG str opts =
     (let success = (setSvgString str \<noteq> JBool False) in
      if success then ([], Inr ())
      else ((if \<not> truthy (noAlert_of opts) then [Alert errorLoadingSVG] else []),
            Inl (Error ''Error loading SVG'')))"

section \<open>Undo and redo (svgedit.js, clickUndo and clickRedo)\<close>

text \<open>
  \<^verbatim>\<open>undoMgr\<close> is the undo manager of the canvas
  (\<^verbatim>\<open>const {undoMgr} = svgCanvas\<close>); its four operations are parameters
  over a canvas state \<open>'c\<close>. The editor state pairs the canvas with the log of
  the calls the two handlers make.
\<close>

record 'c undo_mgr =
  getUndoStackSize :: "'c \<Rightarrow> nat"
  getRedoStackSize :: "'c \<Rightarrow> nat"
  undo :: "'c \<Rightarrow> 'c"
  redo :: "'c \<Rightarrow> 'c"

datatype action =
    RotateSelected nat nat | SelectPrev | SelectNext | ZoomImage rat
  | MoveUpDownSelected string | MoveSelected int int
  | CloneSelectedElements int int | SelectAllInCurrentLayer
  | ClickUndo | ClickRedo | CutSelected | CopySelected | PasteInCenter

datatype editor_call = CallUndo | CallRedo | CallPopulateLayers | CallOther action

record 'c editor =
  canvas :: 'c
  calls :: "editor_call list"

definition clickUndo :: "'c undo_mgr \<Rightarrow> 'c editor \<Rightarrow> 'c editor" where
  "clickUndo undoMgr ed =
     (if getUndoStackSize undoMgr (canvas ed) > 0
      then ed\<lparr>canvas := undo undoMgr (canvas ed),
              calls := calls ed @ [CallUndo, CallPopulateLayers]\<rparr>
      else ed)"

definition clickRedo :: "'c undo_mgr \<Rightarrow> 'c editor \<Rightarrow> 'c editor" where
  "clickRedo undoMgr ed =
     (if getRedoStackSize undoMgr (canvas ed) > 0
      then ed\<lparr>canvas := redo undoMgr (canvas ed),
              calls := calls ed @ [CallRedo, CallPopulateLayers]\<rparr>
      else ed)"

section \<open>Keyboard shortcuts (svgedit.js, Actions.setAll)\<close>

text \<open>
  A \<^verbatim>\<open>key\<close> option of a tool button is a string or an array whose first
  element is the key and whose second, if any, is the prevent-default flag.
\<close>

datatype key_spec = KeyStr string | KeyArr "jsval list"

datatype tool_button = ToolButton (opts_key: "key_spec option") (opts_fn: action)

text \<open>The table \<^verbatim>\<open>toolButtons\<close>, with \<^verbatim>\<open>modKey\<close> as its parameter.\<close>

definition toolButtons :: "string \<Rightarrow> tool_button list" where
  "toolButtons modKey =
   [ToolButton (Some (KeyStr ''ctrl+left'')) (RotateSelected 0 1),
    ToolButton (Some (KeyStr ''ctrl+right'')) (RotateSelected 1 1),
    ToolButton (Some (KeyStr ''ctrl+shift+left'')) (RotateSelected 0 5),
    ToolButton (Some (KeyStr ''ctrl+shift+right'')) (RotateSelected 1 5),
    ToolButton (Some (KeyStr ''shift+O'')) SelectPrev,
    ToolButton (Some (KeyStr ''shift+P'')) SelectNext,
    ToolButton (Some (KeyArr [JStr (modKey @ ''up''), JBool True])) (ZoomImage 2),
    ToolButton (Some (KeyArr [JStr (modKey @ ''down''), JBool True])) (ZoomImage (1 / 2)),
    ToolButton (Some (KeyArr [JStr (modKey @ '']''), JBool True])) (MoveUpDownSelected ''Up''),
    ToolButton (Some (KeyArr [JStr (modKey @ ''[''), JBool True])) (MoveUpDownSelected ''Down''),
    ToolButton (Some (KeyArr [JStr ''up'', JBool True])) (MoveSelected 0 (- 1)),
    ToolButton (Some (KeyArr [JStr ''down'', JBool True])) (MoveSelected 0 1),
    ToolButton (Some (KeyArr [JStr ''left'', JBool True])) (MoveSelected (- 1) 0),
    ToolButton (Some (KeyArr [JStr ''right'', JBool True])) (MoveSelected 1 0),
    ToolButton (Some (KeyStr ''shift+up'')) (MoveSelected 0 (- 10)),
    ToolButton (Some (KeyStr ''shift+down'')) (MoveSelected 0 10),
    ToolButton (Some (KeyStr ''shift+left'')) (MoveSelected (- 10) 0),
    ToolButton (Some (KeyStr ''shift+right'')) (MoveSelected 10 0),
    ToolButton (Some (KeyArr [JStr ''alt+up'', JBool True])) (CloneSelectedElements 0 (- 1)),
    ToolButton (Some (KeyArr [JStr ''alt+down'', JBool True])) (CloneSelectedElements 0 1),
    ToolButton (Some (KeyArr [JStr ''alt+left'', JBool True])) (CloneSelectedElements (- 1) 0),
    ToolButton (Some (KeyArr [JStr ''alt+right'', JBool True])) (CloneSelectedElements 1 0),
    ToolButton (Some (KeyArr [JStr ''alt+shift+up'', JBool True])) (CloneSelectedElements 0 (- 10)),
    ToolButton (Some (KeyArr [JStr ''alt+shift+down'', JBool True])) (CloneSelectedElements 0 10),
    ToolButton (Some (KeyArr [JStr ''alt+shift+left'', JBool True])) (CloneSelectedElements (- 10) 0),
    ToolButton (Some (KeyArr [JStr ''alt+shift+right'', JBool True])) (CloneSelectedElements 10 0),
    ToolButton (Some (KeyStr ''a'')) SelectAllInCurrentLayer,
    ToolButton (Some (KeyStr (modKey @ ''a''))) SelectAllInCurrentLayer,
    ToolButton (Some (KeyStr (modKey @ ''z''))) ClickUndo,
    ToolButton (Some (KeyStr (modKey @ ''shift+z''))) ClickRedo,
    ToolButton (Some (KeyStr (modKey @ ''y''))) ClickRedo,
    ToolButton (Some (KeyStr (modKey @ ''x''))) CutSelected,
    ToolButton (Some (KeyStr (modKey @ ''c''))) CopySelected,
    ToolButton (Some (KeyStr (modKey @ ''v''))) PasteInCenter]"

text \<open>\<^verbatim>\<open>s.split(sep)\<close> for a one-character separator.\<close>

fun split_js :: "char \<Rightarrow> string \<Rightarrow> string list" where
  "split_js sep [] = [ [] ]"
| "split_js sep (c # cs) =
     (if c = sep then [] # split_js sep cs
      else (case split_js sep cs of
              [] \<Rightarrow> [ [c] ]
            | w # ws \<Rightarrow> (c # w) # ws))"

text \<open>\<^verbatim>\<open>toLowerCase\<close> on the ASCII letters; other characters are kept.\<close>

definition toLowerCase_char :: "char \<Rightarrow> char" where
  "toLowerCase_char c =
     (case map_of (zip ''ABCDEFGHIJKLMNOPQRSTUVWXYZ'' ''abcdefghijklmnopqrstuvwxyz'') c of
        Some l \<Rightarrow> l
      | None \<Rightarrow> c)"

definition toLowerCase :: "string \<Rightarrow> string" where
  "toLowerCase s = map toLowerCase_char s"

text \<open>
  \<^verbatim>\<open>keyHandler\<close>: the object that maps a key to \<^verbatim>\<open>{fn, pd}\<close>.
\<close>

type_synonym keyHandler = "string \<rightharpoonup> action \<times> jsval"

fun key_truthy :: "key_spec option \<Rightarrow> bool" where
  "key_truthy None = False"
| "key_truthy (Some (KeyStr s)) = (s \<noteq> [])"
| "key_truthy (Some (KeyArr a)) = True"

text \<open>
  \<^verbatim>\<open>keyval\<close> and \<^verbatim>\<open>pd\<close> as the body of the \<^verbatim>\<open>forEach\<close> computes
  them: \<^verbatim>\<open>pd\<close> starts as false, an array gives \<^verbatim>\<open>key[0]\<close> and, when it
  has more than one element, \<^verbatim>\<open>key[1]\<close>.
\<close>

fun keyval_pd :: "key_spec \<Rightarrow> jsval \<times> jsval" where
  "keyval_pd (KeyStr s) = (JStr s, JBool False)"
| "keyval_pd (KeyArr []) = (JUndefined, JBool False)"
| "keyval_pd (KeyArr [k]) = (k, JBool False)"
| "keyval_pd (KeyArr (k # p # rest)) = (k, p)"

definition bind_keys :: "action \<Rightarrow> jsval \<Rightarrow> string list \<Rightarrow> keyHandler \<Rightarrow> keyHandler" where
  "bind_keys f pd keys kh = fold (\<lambda>key m. m(key \<mapsto> (f, pd))) keys kh"

definition register :: "tool_button \<Rightarrow> keyHandler \<Rightarrow> keyHandler" where
  "register opts kh =
     (if key_truthy (opts_key opts) then
        (case keyval_pd (the (opts_key opts)) of
           (keyval, pd) \<Rightarrow>
             bind_keys (opts_fn opts) pd (split_js CHR ''/'' (String_js keyval)) kh)
      else kh)"

definition setAll_keyHandler :: "tool_button list \<Rightarrow> keyHandler" where
  "setAll_keyHandler tbs = fold register tbs Map.empty"

record key_event =
  target_nodeName :: string
  metaKey :: bool
  ctrlKey :: bool
  shiftKey :: bool
  altKey :: bool
  ev_key :: string

datatype key_effect = CallFn action | PreventDefault

definition lookup_key :: "key_event \<Rightarrow> string" where
  "lookup_key e =
     (if metaKey e then ''meta+'' else '''') @ (if ctrlKey e then ''ctrl+'' else '''')
       @ toLowerCase (ev_key e)"

definition keydown :: "keyHandler \<Rightarrow> key_event \<Rightarrow> key_effect list" where
  "keydown kh e =
     (if target_nodeName e \<noteq> ''BODY'' then []
      else (case kh (lookup_key e) of
              None \<Rightarrow> []
            | Some (f, pd) \<Rightarrow> CallFn f # (if truthy pd then [PreventDefault] else [])))"

text \<open>
  Running what the listener did on the editor: the two history actions are the
  handlers above, any other action is logged.
\<close>

fun run_effect :: "'c undo_mgr \<Rightarrow> key_effect \<Rightarrow> 'c editor \<Rightarrow> 'c editor" where
  "run_effect undoMgr (CallFn ClickUndo) ed = clickUndo undoMgr ed"
| "run_effect undoMgr (CallFn ClickRedo) ed = clickRedo undoMgr ed"
| "run_effect undoMgr (CallFn f) ed = ed\<lparr>calls := calls ed @ [CallOther f]\<rparr>"
| "run_effect undoMgr PreventDefault ed = ed"

definition press :: "'c undo_mgr \<Rightarrow> string \<Rightarrow> key_event \<Rightarrow> 'c editor \<Rightarrow> 'c editor" where
  "press undoMgr modKey e ed =
     fold (run_effect undoMgr) (keydown (setAll_keyHandler (toolButtons modKey)) e) ed"

text \<open>
  A history of two stacks, to run the handlers on: undo moves the top of the undo
  stack to the redo stack, redo moves it back.
\<close>

definition stack_mgr :: "(nat list \<times> nat list) undo_mgr" where
  "stack_mgr =
     \<lparr>getUndoStackSize = (\<lambda>(u, r). length u),
      getRedoStackSize = (\<lambda>(u, r). length r),
      undo = (\<lambda>(u, r). case u of [] \<Rightarrow> (u, r) | x # u' \<Rightarrow> (u', x # r)),
      redo = (\<lambda>(u, r). case r of [] \<Rightarrow> (u, r) | x # r' \<Rightarrow> (x # u, r'))\<rparr>"

section \<open>Extensions (svgedit.js, extAdded)\<close>

text \<open>
  An extension object, as far as \<^verbatim>\<open>extAdded\<close> reads it. \<open>langReady\<close> and
  \<open>callback\<close> say whether the property is there (the hooks themselves belong to the
  extension); a context tool has its panel, id and type and the names of the events
  it binds; \<open>events\<close> is the id of the button of \<^verbatim>\<open>ext.events\<close>.
\<close>

record context_tool =
  tool_panel :: string
  tool_id :: string
  tool_type :: string
  tool_events :: "string list option"
  tool_colnum :: "string option"

record extension =
  langReady :: bool
  callback :: bool
  context_tools :: "context_tool list option"
  events :: "string option"

datatype ext_effect =
    AwaitLangReady string
  | CreatePanel string
  | AppendTool string string string
  | BindToolEvent string string
  | AppendOptionList string "string option"
  | AddClickListener string
  | CallCallback

text \<open>
  The state of one call: the flag \<^verbatim>\<open>cbCalled\<close>, the ids present in the
  document and what the call has done so far.
\<close>

record ext_run =
  cbCalled :: bool
  dom_ids :: "string list"
  trace :: "ext_effect list"

definition emit :: "ext_effect list \<Rightarrow> ext_run \<Rightarrow> ext_run" where
  "emit es s = s\<lparr>trace := trace s @ es\<rparr>"

definition runCallback :: "extension \<Rightarrow> ext_run \<Rightarrow> ext_run" where
  "runCallback ext s =
     (if callback ext \<and> \<not> cbCalled s
      then emit [CallCallback] (s\<lparr>cbCalled := True\<rparr>)
      else s)"

definition bind_tool_events :: "context_tool \<Rightarrow> ext_run \<Rightarrow> ext_run" where
  "bind_tool_events tool s =
     (case tool_events tool of
        None \<Rightarrow> s
      | Some evts \<Rightarrow> emit (map (BindToolEvent (tool_id tool)) evts) s)"

text \<open>
  The body of \<^verbatim>\<open>$.each(ext.context_tools, ...)\<close>: the panel is created when it
  does not exist, then the tool is added according to its type.
\<close>

definition add_context_tool :: "context_tool \<Rightarrow> ext_run \<Rightarrow> ext_run" where
  "add_context_tool tool s =
     (let s1 = (if tool_panel tool \<in> set (dom_ids s) then s
                else emit [CreatePanel (tool_panel tool)]
                       (s\<lparr>dom_ids := dom_ids s @ [tool_panel tool]\<rparr>));
          added = emit [AppendTool (tool_panel tool) (tool_type tool) (tool_id tool)]
                    (s1\<lparr>dom_ids := dom_ids s1 @ [tool_id tool]\<rparr>)
      in if tool_type tool = ''tool_button'' then bind_tool_events tool added
         else if tool_type tool = ''select'' then bind_tool_events tool added
         else if tool_type tool = ''button-select'' then
           emit [AppendTool (tool_panel tool) (tool_type tool) (tool_id tool)]
             (emit [AppendOptionList (tool_id tool @ ''_opts'') (tool_colnum tool)]
                (s1\<lparr>dom_ids := dom_ids s1 @ [tool_id tool @ ''_opts'', tool_id tool]\<rparr>))
         else if tool_type tool = ''input'' then bind_tool_events tool added
         else s1)"

text \<open>
  \<^verbatim>\<open>extAdded\<close>. \<open>langChanged\<close> is \<^verbatim>\<open>editor.langChanged\<close>, \<open>lang\<close> is
  \<^verbatim>\<open>editor.pref('lang')\<close>, \<open>ids\<close> are the ids in the document. The result is
  what the call did, in order, and how it ended: \<^verbatim>\<open>$id(ext.events.id)\<close> is
  null for an id that is not in the document, and calling a method on it throws.
\<close>

definition extAdded ::
  "bool \<Rightarrow> string \<Rightarrow> string list \<Rightarrow> extension option \<Rightarrow> ext_effect list \<times> (js_error + unit)"
where
  "extAdded langChanged lang ids ext_opt =
     (case ext_opt of
        None \<Rightarrow> ([], Inr ())
      | Some ext \<Rightarrow>
          (let s0 = \<lparr>cbCalled = False, dom_ids = ids, trace = []\<rparr>;
               s1 = (if langReady ext \<and> langChanged then emit [AwaitLangReady lang] s0 else s0);
               s2 = (case context_tools ext of
                       None \<Rightarrow> s1
                     | Some tools \<Rightarrow> fold add_context_tool tools s1)
           in case events ext of
                None \<Rightarrow> (trace (runCallback ext s2), Inr ())
              | Some i \<Rightarrow>
                  if i \<in> set (dom_ids s2)
                  then (trace (runCallback ext (emit [AddClickListener i] s2)), Inr ())
                  else (trace s2, Inl (TypeError ''null has no addEventListener''))))"

text \<open>How often a trace invokes the callback, and how often it awaits langReady.\<close>

definition callback_count :: "ext_effect list \<Rightarrow> nat" where
  "callback_count es = length (filter (\<lambda>e. e = CallCallback) es)"

fun is_await :: "ext_effect \<Rightarrow> bool" where
  "is_await (AwaitLangReady l) = True"
| "is_await e = False"

definition lang_count :: "ext_effect list \<Rightarrow> nat" where
  "lang_count es = length (filter is_await es)"

section \<open>Documents\<close>

text \<open>
  A parsed document is the tree of its root element: an element has a tag name, its
  attributes in order and its child nodes; a text node has its data.
\<close>

datatype node =
    Elem (tagName: string) (attributes: "(string \<times> string) list") (childNodes: "node list")
  | Text string

text \<open>
  \<^verbatim>\<open>getElementsByTagName('*')\<close>, and the order in which
  \<^verbatim>\<open>querySelectorAll\<close> and \<^verbatim>\<open>getElementById\<close> search: every element
  in document order.
\<close>

fun elements :: "node \<Rightarrow> node list" where
  "elements (Text s) = []"
| "elements (Elem n as cs) = Elem n as cs # concat (map elements cs)"

definition getAttribute :: "string \<Rightarrow> node \<Rightarrow> string option" where
  "getAttribute name e = map_of (attributes e) name"

definition hasAttribute :: "string \<Rightarrow> node \<Rightarrow> bool" where
  "hasAttribute name e = (name \<in> set (map fst (attributes e)))"

text \<open>ASCII whitespace, on which a class attribute is split into its tokens.\<close>

definition is_space :: "char \<Rightarrow> bool" where
  "is_space c = (c \<in> set [CHR '' '', CHR 0x09, CHR 0x0A, CHR 0x0C, CHR 0x0D])"

text \<open>The tokens of a class attribute: the maximal runs without whitespace.\<close>

fun class_tokens_acc :: "string \<Rightarrow> string \<Rightarrow> string list" where
  "class_tokens_acc cur [] = (if cur = [] then [] else [cur])"
| "class_tokens_acc cur (c # cs) =
     (if is_space c then (if cur = [] then [] else [cur]) @ class_tokens_acc [] cs
      else class_tokens_acc (cur @ [c]) cs)"

definition classList :: "node \<Rightarrow> string list" where
  "classList e = (case getAttribute ''class'' e of None \<Rightarrow> [] | Some v \<Rightarrow> class_tokens_acc [] v)"

text \<open>\<^verbatim>\<open>querySelectorAll('.c')\<close> on a document.\<close>

definition querySelectorAll_class :: "string \<Rightarrow> node \<Rightarrow> node list" where
  "querySelectorAll_class c doc = filter (\<lambda>e. c \<in> set (classList e)) (elements doc)"

section \<open>The default layer (customInitLayer)\<close>

datatype init_effect =
    ConsoleLog nat | CreateLayer string | UpdateContextPanel | PopulateLayers

text \<open>
  The name of the default layer, two CJK characters, a space and the digit 1, as its
  UTF-8 bytes.
\<close>

definition default_layer_name :: string where
  "default_layer_name =
     [CHR 0xE5, CHR 0x9B, CHR 0xBE, CHR 0xE5, CHR 0xB1, CHR 0x82, CHR '' '', CHR ''1'']"

text \<open>
  \<^verbatim>\<open>initSvgDom\<close> is a variable of the enclosing module; it is the parameter. The
  result is what the call does, in order.
\<close>

definition customInitLayer :: "node \<Rightarrow> init_effect list" where
  "customInitLayer initSvgDom =
     ConsoleLog (length (querySelectorAll_class ''layer'' initSvgDom))
     # (if length (querySelectorAll_class ''layer'' initSvgDom) = 0
        then [CreateLayer default_layer_name, UpdateContextPanel, PopulateLayers]
        else [])"

section \<open>The left panel (svgedit.js, updateLeftPanel and clickSelect)\<close>

text \<open>
  The buttons of the page, in document order. \<open>pressed\<close> stands for the
  \<^verbatim>\<open>pressed\<close> property of the button component and for the attribute that
  the selector \<^verbatim>\<open>#tools_left *[pressed]\<close> tests; \<open>in_tools_left\<close> says whether
  the element is below \<^verbatim>\<open>#tools_left\<close>.
\<close>

record tool_elem =
  el_id :: string
  disabled :: bool
  pressed :: bool
  in_tools_left :: bool

text \<open>
  The argument of \<^verbatim>\<open>updateLeftPanel\<close> is documented as a string or an
  element. An element is given by its position in the page.
\<close>

datatype button_arg = BStr string | BElem nat

text \<open>
  \<^verbatim>\<open>button.disabled\<close>: a string has no such property, so the value is
  undefined; an element has its own.
\<close>

fun button_disabled :: "tool_elem list \<Rightarrow> button_arg \<Rightarrow> jsval" where
  "button_disabled page (BStr s) = JUndefined"
| "button_disabled page (BElem i) =
     (if i < length page then JBool (disabled (page ! i)) else JUndefined)"

text \<open>
  Modelled from the spec: \<^verbatim>\<open>$id\<close> and \<^verbatim>\<open>$qq\<close> are imported from the
  utilities module, which is not part of the sources at hand; by their use they are
  \<^verbatim>\<open>document.getElementById\<close> and \<^verbatim>\<open>document.querySelectorAll\<close>.
  \<^verbatim>\<open>getElementById\<close> converts its argument to a string; an element converts
  to \<^verbatim>\<open>[object HTMLElement]\<close>.
\<close>

fun button_String :: "button_arg \<Rightarrow> string" where
  "button_String (BStr s) = s"
| "button_String (BElem i) = ''[object HTMLElement]''"

fun find_index_id :: "string \<Rightarrow> tool_elem list \<Rightarrow> nat option" where
  "find_index_id i [] = None"
| "find_index_id i (b # bs) =
     (if i \<noteq> [] \<and> el_id b = i then Some 0
      else map_option Suc (find_index_id i bs))"

definition unpress_tools_left :: "tool_elem list \<Rightarrow> tool_elem list" where
  "unpress_tools_left page =
     map (\<lambda>b. if in_tools_left b \<and> pressed b then b\<lparr>pressed := False\<rparr> else b) page"

definition updateLeftPanel ::
  "button_arg \<Rightarrow> tool_elem list \<Rightarrow> (js_error + bool) \<times> tool_elem list"
where
  "updateLeftPanel button page =
     (if truthy (button_disabled page button) then (Inr False, page)
      else
        (let page1 = unpress_tools_left page in
         case find_index_id (button_String button) page1 of
           None \<Rightarrow> (Inl (TypeError ''cannot set property pressed of null''), page1)
         | Some i \<Rightarrow> (Inr True, page1[i := (page1 ! i)\<lparr>pressed := True\<rparr>])))"

record left_panel_state =
  lp_page :: "tool_elem list"
  canvas_mode :: string
  cursor :: string

text \<open>
  \<^verbatim>\<open>clickSelect\<close>; the first component of the result is the error thrown, if any.
\<close>

definition clickSelect :: "left_panel_state \<Rightarrow> js_error option \<times> left_panel_state" where
  "clickSelect s =
     (case updateLeftPanel (BStr ''tool_select'') (lp_page s) of
        (Inl err, page') \<Rightarrow> (Some err, s\<lparr>lp_page := page'\<rparr>)
      | (Inr ok, page') \<Rightarrow>
          if ok then (None, s\<lparr>lp_page := page', cursor := ''auto'', canvas_mode := ''select''\<rparr>)
          else (None, s\<lparr>lp_page := page'\<rparr>))"

section \<open>Rulers (svgedit.js, rIntervals and updateRulers)\<close>











section \<open>Filling in missing attributes (compareAndFillSvgDom)\<close>

type_synonym attrs = "(string \<times> string) list"

text \<open>
  \<^verbatim>\<open>getElementById(i)\<close> returns the first element in document order whose id
  attribute is \<open>i\<close>; the empty string is the id of no element.
\<close>

definition has_id :: "string \<Rightarrow> attrs \<Rightarrow> bool" where
  "has_id i as = (i \<noteq> [] \<and> map_of as ''id'' = Some i)"

definition getElementById :: "string \<Rightarrow> node \<Rightarrow> node option" where
  "getElementById i doc = find (\<lambda>e. has_id i (attributes e)) (elements doc)"

text \<open>
  The argument that \<^verbatim>\<open>getElementById\<close> receives for an element of the first
  document: \<^verbatim>\<open>getAttribute('id')\<close> is null without the attribute, and null is
  converted to the string \<^verbatim>\<open>null\<close>.
\<close>

definition lookup_id :: "node \<Rightarrow> string" where
  "lookup_id e = (case getAttribute ''id'' e of None \<Rightarrow> ''null'' | Some v \<Rightarrow> v)"

text \<open>
  A write to the attributes of the element that \<^verbatim>\<open>getElementById(i)\<close> returns,
  as a new document; \<open>None\<close> when there is no such element.
\<close>

fun update_by_id :: "string \<Rightarrow> (attrs \<Rightarrow> attrs) \<Rightarrow> node \<Rightarrow> node option"
  and update_by_id_list :: "string \<Rightarrow> (attrs \<Rightarrow> attrs) \<Rightarrow> node list \<Rightarrow> node list option"
where
  "update_by_id i f (Text s) = None"
| "update_by_id i f (Elem n as cs) =
     (if has_id i as then Some (Elem n (f as) cs)
      else map_option (Elem n as) (update_by_id_list i f cs))"
| "update_by_id_list i f [] = None"
| "update_by_id_list i f (c # cs) =
     (case update_by_id i f c of
        Some c' \<Rightarrow> Some (c' # cs)
      | None \<Rightarrow> map_option ((#) c) (update_by_id_list i f cs))"

text \<open>
  The inner loop, on the attributes of \<^verbatim>\<open>element2\<close>: an attribute of
  \<^verbatim>\<open>element1\<close> whose name \<^verbatim>\<open>element2\<close> does not have is set, which
  appends it.
\<close>

definition fill_missing :: "attrs \<Rightarrow> attrs \<Rightarrow> attrs" where
  "fill_missing attributes1 attributes2 =
     fold (\<lambda>(name, val) as. if name \<in> set (map fst as) then as else as @ [(name, val)])
       attributes1 attributes2"

text \<open>The body of the outer loop; without a match the loop continues.\<close>

definition compare_step :: "node \<Rightarrow> node \<Rightarrow> node" where
  "compare_step element1 svgDom2 =
     (case update_by_id (lookup_id element1) (fill_missing (attributes element1)) svgDom2 of
        None \<Rightarrow> svgDom2
      | Some d \<Rightarrow> d)"

definition compareAndFillSvgDom :: "node \<Rightarrow> node \<Rightarrow> node" where
  "compareAndFillSvgDom svgDom1 svgDom2 = fold compare_step (elements svgDom1) svgDom2"

text \<open>A document without its attributes: the tag names, the text and the shape.\<close>

fun strip_attrs :: "node \<Rightarrow> node" where
  "strip_attrs (Text s) = Text s"
| "strip_attrs (Elem n as cs) = Elem n [] (map strip_attrs cs)"

text \<open>The position, in document order, of the element with a given id.\<close>

definition index_of_id :: "string \<Rightarrow> node \<Rightarrow> nat option" where
  "index_of_id i doc =
     (if \<exists>e \<in> set (elements doc). has_id i (attributes e)
      then Some (length (takeWhile (\<lambda>e. \<not> has_id i (attributes e)) (elements doc)))
      else None)"

text \<open>
  The attribute lists of a document in document order, and the same search and write
  on such a list: \<open>first_hit\<close> is the position of the first entry with the id (the
  length of the list when there is none), \<open>fill_step\<close> is one round of the outer loop.
\<close>

definition attrs_of :: "node \<Rightarrow> attrs list" where
  "attrs_of doc = map attributes (elements doc)"

definition first_hit :: "string \<Rightarrow> attrs list \<Rightarrow> nat" where
  "first_hit i L = length (takeWhile (\<lambda>x. \<not> has_id i x) L)"

definition id_key :: "attrs \<Rightarrow> string" where
  "id_key as = (case map_of as ''id'' of None \<Rightarrow> ''null'' | Some v \<Rightarrow> v)"

definition fill_step :: "attrs \<Rightarrow> attrs list \<Rightarrow> attrs list" where
  "fill_step as1 L =
     (if first_hit (id_key as1) L < length L
      then L[first_hit (id_key as1) L := fill_missing as1 (L ! first_hit (id_key as1) L)]
      else L)"

text \<open>
  The first element of the first document, in document order, whose lookup finds the
  element at position \<open>k\<close> of the second document and which has the attribute \<open>n\<close>.
\<close>

definition donor :: "node \<Rightarrow> node \<Rightarrow> nat \<Rightarrow> string \<Rightarrow> node option" where
  "donor svgDom1 svgDom2 k n =
     find (\<lambda>e1. index_of_id (lookup_id e1) svgDom2 = Some k \<and> hasAttribute n e1)
       (elements svgDom1)"

section \<open>Metadata (extractAndEnhanceMetadata and replaceSvgMetadata)\<close>























text \<open>
  \<open>no_meta\<close>: the node contains no metadata element. \<open>flat\<close>: no metadata element of
  the document lies inside another one.
\<close>

fun no_meta :: "node \<Rightarrow> bool" where
  "no_meta (Text s) = True"
| "no_meta (Elem n as cs) = (n \<noteq> ''metadata'' \<and> (\<forall>c \<in> set cs. no_meta c))"

fun flat :: "node \<Rightarrow> bool" where
  "flat (Text s) = True"
| "flat (Elem n as cs) =
     (if n = ''metadata'' then (\<forall>c \<in> set cs. no_meta c) else (\<forall>c \<in> set cs. flat c))"



fun metas :: "node \<Rightarrow> (attrs \<times> node list) list" where
  "metas (Text s) = []"
| "metas (Elem n as cs) = (if n = ''metadata'' then [(as, cs)] else concat (map metas cs))"






section \<open>Theorems\<close>

text \<open>
  C5. In every canvas state, mouseDown calls setPanning(true) and returns
  {started: true} exactly when the mode is 'ext-panning', mouseUp calls
  setPanning(false) and returns {keep: false, element: null} exactly when the mode
  is 'ext-panning', and in every other mode both return undefined and leave the
  state, the panning flags included, as it was.
\<close>

theorem panning_handlers_mode_conditional:
  "(mouseDown s = (RStarted True, setPanning True s) \<longleftrightarrow> mode s = ''ext-panning'')
   \<and> (mouseUp s = (RKeep False None, setPanning False s) \<longleftrightarrow> mode s = ''ext-panning'')
   \<and> (mode s \<noteq> ''ext-panning'' \<longrightarrow>
        mouseDown s = (RUndefined, s) \<and> mouseUp s = (RUndefined, s))
   \<and> (mode s = ''ext-panning'' \<longrightarrow>
        setPanning_calls (snd (mouseDown s)) = setPanning_calls s @ [True]
        \<and> spaceKey (snd (mouseDown s)) \<and> keypan (snd (mouseDown s))
        \<and> setPanning_calls (snd (mouseUp s)) = setPanning_calls s @ [False]
        \<and> \<not> spaceKey (snd (mouseUp s)) \<and> \<not> keypan (snd (mouseUp s)))"
  by (simp add: mouseDown_def mouseUp_def setPanning_def)

theorem panning_handlers_mode_conditional_witness:
  "mouseDown \<lparr>mode = ''ext-panning'', spaceKey = False, keypan = False, setPanning_calls = []\<rparr>
     = (RStarted True,
        \<lparr>mode = ''ext-panning'', spaceKey = True, keypan = True, setPanning_calls = [True]\<rparr>)
   \<and> mouseUp \<lparr>mode = ''select'', spaceKey = True, keypan = True, setPanning_calls = [True]\<rparr>
     = (RUndefined,
        \<lparr>mode = ''select'', spaceKey = True, keypan = True, setPanning_calls = [True]\<rparr>)"
  using panning_handlers_mode_conditional
          [of "\<lparr>mode = ''ext-panning'', spaceKey = False, keypan = False, setPanning_calls = []\<rparr>"]
        panning_handlers_mode_conditional
          [of "\<lparr>mode = ''select'', spaceKey = True, keypan = True, setPanning_calls = [True]\<rparr>"]
  by (simp add: setPanning_def)

text \<open>
  C10. loadSvgString throws exactly when setSvgString returns false; in that case
  the error-loading alert is shown first unless noAlert is set, and for any other
  return value it returns normally with no alert.
\<close>

theorem loadSvgString_throws_iff_rejected:
  "((\<exists>e. snd (loadSvgString setSvgString msg str opts) = Inl e)
      \<longleftrightarrow> setSvgString str = JBool False)
   \<and> (setSvgString str = JBool False \<longrightarrow>
        loadSvgString setSvgString msg str opts
          = ((if truthy (noAlert_of opts) then [] else [Alert msg]),
             Inl (Error ''Error loading SVG'')))
   \<and> (setSvgString str \<noteq> JBool False \<longrightarrow>
        loadSvgString setSvgString msg str opts = ([], Inr ()))"
  by (simp add: loadSvgString_def)

theorem loadSvgString_throws_iff_rejected_witness:
  "loadSvgString (\<lambda>s. JBool (s \<noteq> [])) ''failed'' [] None
     = ([Alert ''failed''], Inl (Error ''Error loading SVG''))
   \<and> loadSvgString (\<lambda>s. JBool (s \<noteq> [])) ''failed'' [] (Some \<lparr>noAlert = JBool True\<rparr>)
     = ([], Inl (Error ''Error loading SVG''))
   \<and> loadSvgString (\<lambda>s. JUndefined) ''failed'' ''<svg/>'' None = ([], Inr ())"
  using loadSvgString_throws_iff_rejected [of "\<lambda>s. JBool (s \<noteq> [])" "''failed''" "[]" None]
        loadSvgString_throws_iff_rejected
          [of "\<lambda>s. JBool (s \<noteq> [])" "''failed''" "[]" "Some \<lparr>noAlert = JBool True\<rparr>"]
        loadSvgString_throws_iff_rejected [of "\<lambda>s. JUndefined" "''failed''" "''<svg/>''" None]
  by (simp add: noAlert_of_def)

subsection \<open>Undo, redo and the keyboard\<close>

lemma clickUndo_guarded:
  "(clickUndo undoMgr ed
      = ed\<lparr>canvas := undo undoMgr (canvas ed),
            calls := calls ed @ [CallUndo, CallPopulateLayers]\<rparr>)
     \<longleftrightarrow> 0 < getUndoStackSize undoMgr (canvas ed)"
proof (cases "0 < getUndoStackSize undoMgr (canvas ed)")
  case True
  then show ?thesis by (simp add: clickUndo_def)
next
  case False
  have "calls ed \<noteq> calls ed @ [CallUndo, CallPopulateLayers]" by simp
  then have "ed \<noteq> ed\<lparr>canvas := undo undoMgr (canvas ed),
                       calls := calls ed @ [CallUndo, CallPopulateLayers]\<rparr>"
    by (metis editor.select_convs(2) editor.surjective editor.update_convs(1,2))
  with False show ?thesis by (simp add: clickUndo_def)
qed

lemma clickUndo_empty_stack:
  "getUndoStackSize undoMgr (canvas ed) = 0 \<Longrightarrow> clickUndo undoMgr ed = ed"
  by (simp add: clickUndo_def)

lemma clickRedo_guarded:
  "(clickRedo undoMgr ed
      = ed\<lparr>canvas := redo undoMgr (canvas ed),
            calls := calls ed @ [CallRedo, CallPopulateLayers]\<rparr>)
     \<longleftrightarrow> 0 < getRedoStackSize undoMgr (canvas ed)"
proof (cases "0 < getRedoStackSize undoMgr (canvas ed)")
  case True
  then show ?thesis by (simp add: clickRedo_def)
next
  case False
  have "calls ed \<noteq> calls ed @ [CallRedo, CallPopulateLayers]" by simp
  then have "ed \<noteq> ed\<lparr>canvas := redo undoMgr (canvas ed),
                       calls := calls ed @ [CallRedo, CallPopulateLayers]\<rparr>"
    by (metis editor.select_convs(2) editor.surjective editor.update_convs(1,2))
  with False show ?thesis by (simp add: clickRedo_def)
qed

lemma clickRedo_empty_stack:
  "getRedoStackSize undoMgr (canvas ed) = 0 \<Longrightarrow> clickRedo undoMgr ed = ed"
  by (simp add: clickRedo_def)

lemma bind_keys_apply:
  "bind_keys f pd keys kh k = (if k \<in> set keys then Some (f, pd) else kh k)"
  unfolding bind_keys_def by (induction keys arbitrary: kh) auto

lemma toolButtons_registered_ctrl:
  "setAll_keyHandler (toolButtons ''ctrl+'') ''ctrl+z'' = Some (ClickUndo, JBool False)"
  "setAll_keyHandler (toolButtons ''ctrl+'') ''ctrl+shift+z'' = Some (ClickRedo, JBool False)"
  "setAll_keyHandler (toolButtons ''ctrl+'') ''ctrl+y'' = Some (ClickRedo, JBool False)"
  by (simp_all add: setAll_keyHandler_def toolButtons_def register_def bind_keys_def)

lemma toolButtons_registered_meta:
  "setAll_keyHandler (toolButtons ''meta+'') ''meta+z'' = Some (ClickUndo, JBool False)"
  "setAll_keyHandler (toolButtons ''meta+'') ''meta+shift+z'' = Some (ClickRedo, JBool False)"
  "setAll_keyHandler (toolButtons ''meta+'') ''meta+y'' = Some (ClickRedo, JBool False)"
  by (simp_all add: setAll_keyHandler_def toolButtons_def register_def bind_keys_def)

lemma lookup_key_ignores_shift_alt:
  "lookup_key (e\<lparr>shiftKey := b, altKey := c\<rparr>) = lookup_key e"
  by (simp add: lookup_key_def)

text \<open>
  C1. The guards of clickUndo and clickRedo are as claimed (the four lemmas above),
  and the table registers mod+z for clickUndo, mod+shift+z and mod+y for clickRedo.
  The listener never puts the shift key into its lookup key, so the registered
  entry for mod+shift+z is never found: Ctrl+Shift+Z on the body, with one command
  on each stack, undoes instead of redoing.
\<close>

theorem ctrl_shift_z_runs_undo:
  "press stack_mgr ''ctrl+''
     \<lparr>target_nodeName = ''BODY'', metaKey = False, ctrlKey = True, shiftKey = True,
      altKey = False, ev_key = ''Z''\<rparr>
     \<lparr>canvas = ([1], [2]), calls = []\<rparr>
   = \<lparr>canvas = ([], [1, 2]), calls = [CallUndo, CallPopulateLayers]\<rparr>"
  by (simp add: press_def keydown_def lookup_key_def toLowerCase_def toLowerCase_char_def
        toolButtons_registered_ctrl clickUndo_def stack_mgr_def)

text \<open>
  C3. The listener does nothing unless the target is the body; on the body it looks
  up 'meta+' (if metaKey), then 'ctrl+' (if ctrlKey), then the lowercased key; a
  registered entry has its function called, followed by preventDefault exactly when
  its flag is truthy; without an entry nothing happens. Registering one button binds
  every '/'-separated alternative of its key to that button's function and flag.
\<close>

theorem keydown_dispatch:
  "(target_nodeName e \<noteq> ''BODY'' \<longrightarrow> keydown kh e = [])
   \<and> (target_nodeName e = ''BODY'' \<longrightarrow>
        (case kh ((if metaKey e then ''meta+'' else '''') @ (if ctrlKey e then ''ctrl+'' else '''')
                    @ toLowerCase (ev_key e)) of
           None \<Rightarrow> keydown kh e = []
         | Some (f, pd) \<Rightarrow>
             keydown kh e = CallFn f # (if truthy pd then [PreventDefault] else [])))
   \<and> (key_truthy (opts_key opts) \<longrightarrow>
        (\<forall>k \<in> set (split_js CHR ''/'' (String_js (fst (keyval_pd (the (opts_key opts)))))).
           register opts kh k = Some (opts_fn opts, snd (keyval_pd (the (opts_key opts))))))"
  by (simp add: keydown_def lookup_key_def register_def bind_keys_apply
           split: option.split prod.split)

theorem keydown_dispatch_witness:
  "keydown (setAll_keyHandler (toolButtons ''ctrl+''))
     \<lparr>target_nodeName = ''BODY'', metaKey = False, ctrlKey = True, shiftKey = False,
      altKey = False, ev_key = ''Y''\<rparr> = [CallFn ClickRedo]
   \<and> keydown (setAll_keyHandler (toolButtons ''ctrl+''))
     \<lparr>target_nodeName = ''INPUT'', metaKey = False, ctrlKey = True, shiftKey = False,
      altKey = False, ev_key = ''Y''\<rparr> = []
   \<and> register (ToolButton (Some (KeyArr [JStr ''4/Shift+4'', JBool True])) SelectNext)
        (setAll_keyHandler (toolButtons ''ctrl+'')) ''Shift+4'' = Some (SelectNext, JBool True)
   \<and> register (ToolButton (Some (KeyArr [JStr ''4/Shift+4'', JBool True])) SelectNext)
        (setAll_keyHandler (toolButtons ''ctrl+'')) ''4'' = Some (SelectNext, JBool True)"
  using keydown_dispatch
          [of "\<lparr>target_nodeName = ''BODY'', metaKey = False, ctrlKey = True, shiftKey = False,
                altKey = False, ev_key = ''Y''\<rparr>"
              "setAll_keyHandler (toolButtons ''ctrl+'')"
              "ToolButton (Some (KeyArr [JStr ''4/Shift+4'', JBool True])) SelectNext"]
        keydown_dispatch
          [of "\<lparr>target_nodeName = ''INPUT'', metaKey = False, ctrlKey = True, shiftKey = False,
                altKey = False, ev_key = ''Y''\<rparr>"
              "setAll_keyHandler (toolButtons ''ctrl+'')"
              "ToolButton (Some (KeyArr [JStr ''4/Shift+4'', JBool True])) SelectNext"]
  by (simp add: toLowerCase_def toLowerCase_char_def toolButtons_registered_ctrl)

subsection \<open>Extensions\<close>

lemma add_context_tool_frame:
  "cbCalled (add_context_tool tool s) = cbCalled s
   \<and> callback_count (trace (add_context_tool tool s)) = callback_count (trace s)
   \<and> lang_count (trace (add_context_tool tool s)) = lang_count (trace s)
   \<and> (\<exists>es. trace (add_context_tool tool s) = trace s @ es)"
  by (auto simp: add_context_tool_def bind_tool_events_def emit_def Let_def callback_count_def
        lang_count_def split: option.split)

lemma fold_add_context_tool_frame:
  "cbCalled (fold add_context_tool tools s) = cbCalled s
   \<and> callback_count (trace (fold add_context_tool tools s)) = callback_count (trace s)
   \<and> lang_count (trace (fold add_context_tool tools s)) = lang_count (trace s)
   \<and> (\<exists>es. trace (fold add_context_tool tools s) = trace s @ es)"
proof (induction tools arbitrary: s)
  case Nil
  then show ?case by simp
next
  case (Cons tool tools)
  from add_context_tool_frame [of tool s] obtain es1 where
    1: "cbCalled (add_context_tool tool s) = cbCalled s"
       "callback_count (trace (add_context_tool tool s)) = callback_count (trace s)"
       "lang_count (trace (add_context_tool tool s)) = lang_count (trace s)"
       "trace (add_context_tool tool s) = trace s @ es1"
    by blast
  from Cons.IH [of "add_context_tool tool s"] obtain es2 where
    2: "cbCalled (fold add_context_tool tools (add_context_tool tool s))
          = cbCalled (add_context_tool tool s)"
       "callback_count (trace (fold add_context_tool tools (add_context_tool tool s)))
          = callback_count (trace (add_context_tool tool s))"
       "lang_count (trace (fold add_context_tool tools (add_context_tool tool s)))
          = lang_count (trace (add_context_tool tool s))"
       "trace (fold add_context_tool tools (add_context_tool tool s))
          = trace (add_context_tool tool s) @ es2"
    by blast
  from 1 2 show ?case by simp
qed

lemma runCallback_twice: "runCallback ext (runCallback ext s) = runCallback ext s"
  by (simp add: runCallback_def emit_def)

lemma runCallback_count:
  "callback_count (trace (runCallback ext s))
     = callback_count (trace s) + (if callback ext \<and> \<not> cbCalled s then 1 else 0)"
  by (simp add: runCallback_def emit_def callback_count_def)

lemma extAdded_callback_count:
  "callback_count (fst (extAdded langChanged lang ids (Some ext))) \<le> 1"
proof -
  define s1 where "s1 = (if langReady ext \<and> langChanged
      then emit [AwaitLangReady lang] \<lparr>cbCalled = False, dom_ids = ids, trace = []\<rparr>
      else \<lparr>cbCalled = False, dom_ids = ids, trace = []\<rparr>)"
  define s2 where "s2 = (case context_tools ext of None \<Rightarrow> s1
                         | Some tools \<Rightarrow> fold add_context_tool tools s1)"
  have c1: "callback_count (trace s1) = 0"
    by (simp add: s1_def emit_def callback_count_def)
  have c2: "callback_count (trace s2) = 0"
  proof (cases "context_tools ext")
    case None
    then show ?thesis using c1 by (simp add: s2_def)
  next
    case (Some tools)
    then show ?thesis
      using c1 fold_add_context_tool_frame [of tools s1] by (simp add: s2_def)
  qed
  have "fst (extAdded langChanged lang ids (Some ext))
          = (case events ext of
               None \<Rightarrow> trace (runCallback ext s2)
             | Some i \<Rightarrow> if i \<in> set (dom_ids s2)
                         then trace (runCallback ext (emit [AddClickListener i] s2))
                         else trace s2)"
    unfolding extAdded_def s1_def s2_def Let_def by (auto split: option.split)
  moreover have "callback_count (trace (runCallback ext s2)) \<le> 1"
    using c2 by (simp add: runCallback_count)
  moreover have "callback_count (trace (runCallback ext (emit [AddClickListener i] s2))) \<le> 1" for i
    using c2 by (simp add: runCallback_count) (simp add: emit_def callback_count_def)
  ultimately show ?thesis using c2 by (simp split: option.split)
qed

lemma extAdded_langReady_first:
  "fst (extAdded langChanged lang ids (Some ext))
     = (if langReady ext \<and> langChanged then [AwaitLangReady lang] else [])
       @ drop (if langReady ext \<and> langChanged then 1 else 0)
           (fst (extAdded langChanged lang ids (Some ext)))
   \<and> lang_count (fst (extAdded langChanged lang ids (Some ext)))
       = (if langReady ext \<and> langChanged then 1 else 0)"
proof -
  define s1 where "s1 = (if langReady ext \<and> langChanged
      then emit [AwaitLangReady lang] \<lparr>cbCalled = False, dom_ids = ids, trace = []\<rparr>
      else \<lparr>cbCalled = False, dom_ids = ids, trace = []\<rparr>)"
  define s2 where "s2 = (case context_tools ext of None \<Rightarrow> s1
                         | Some tools \<Rightarrow> fold add_context_tool tools s1)"
  define pre where "pre = (if langReady ext \<and> langChanged then [AwaitLangReady lang] else [])"
  have t1: "trace s1 = pre" and l1: "lang_count (trace s1) = length pre"
    by (simp_all add: s1_def pre_def emit_def lang_count_def)
  have "\<exists>es. trace s2 = pre @ es \<and> lang_count (trace s2) = length pre"
  proof (cases "context_tools ext")
    case None
    then show ?thesis using t1 l1 by (simp add: s2_def)
  next
    case (Some tools)
    then show ?thesis
      using t1 l1 fold_add_context_tool_frame [of tools s1] by (auto simp: s2_def)
  qed
  then obtain es where t2: "trace s2 = pre @ es" and l2: "lang_count (trace s2) = length pre"
    by blast
  have ex: "fst (extAdded langChanged lang ids (Some ext))
          = (case events ext of
               None \<Rightarrow> trace (runCallback ext s2)
             | Some i \<Rightarrow> if i \<in> set (dom_ids s2)
                         then trace (runCallback ext (emit [AddClickListener i] s2))
                         else trace s2)"
    unfolding extAdded_def s1_def s2_def Let_def by (auto split: option.split)
  have "\<exists>fs. fst (extAdded langChanged lang ids (Some ext)) = pre @ fs
              \<and> lang_count (fst (extAdded langChanged lang ids (Some ext))) = length pre"
    using t2 l2 unfolding ex
    by (auto simp: runCallback_def emit_def lang_count_def split: option.split)
  then obtain fs where
    "fst (extAdded langChanged lang ids (Some ext)) = pre @ fs"
    "lang_count (fst (extAdded langChanged lang ids (Some ext))) = length pre"
    by blast
  then show ?thesis by (simp add: pre_def)
qed

text \<open>
  C4. For a falsy extension extAdded returns undefined and does nothing. Otherwise
  the callback is invoked at most once in the call, a second runCallback is a no-op,
  and langReady is awaited, once and before anything else, exactly when the
  extension defines it and editor.langChanged is true.
\<close>

theorem extAdded_hooks:
  "extAdded langChanged lang ids None = ([], Inr ())
   \<and> callback_count (fst (extAdded langChanged lang ids (Some ext))) \<le> 1
   \<and> runCallback ext (runCallback ext s) = runCallback ext s
   \<and> (langReady ext \<and> langChanged \<longrightarrow>
        (\<exists>rest. fst (extAdded langChanged lang ids (Some ext)) = AwaitLangReady lang # rest
                \<and> lang_count rest = 0))
   \<and> (\<not> (langReady ext \<and> langChanged) \<longrightarrow>
        lang_count (fst (extAdded langChanged lang ids (Some ext))) = 0)"
proof -
  have a: "extAdded langChanged lang ids None = ([], Inr ())"
    by (simp add: extAdded_def)
  note b = extAdded_callback_count [of langChanged lang ids ext]
  note c = runCallback_twice [of ext s]
  note d = extAdded_langReady_first [of langChanged lang ids ext]
  have e: "langReady ext \<and> langChanged \<longrightarrow>
        (\<exists>rest. fst (extAdded langChanged lang ids (Some ext)) = AwaitLangReady lang # rest
                \<and> lang_count rest = 0)"
  proof
    assume h: "langReady ext \<and> langChanged"
    let ?t = "fst (extAdded langChanged lang ids (Some ext))"
    from d h have 1: "?t = AwaitLangReady lang # drop 1 ?t" and 2: "lang_count ?t = 1"
      by simp_all
    have "lang_count (AwaitLangReady lang # drop 1 ?t) = 1" using 1 2 by simp
    then have "lang_count (drop 1 ?t) = 0" by (simp add: lang_count_def)
    with 1 show "\<exists>rest. ?t = AwaitLangReady lang # rest \<and> lang_count rest = 0" by blast
  qed
  have f: "\<not> (langReady ext \<and> langChanged) \<longrightarrow>
        lang_count (fst (extAdded langChanged lang ids (Some ext))) = 0"
    using d by simp
  from a b c e f show ?thesis by blast
qed

theorem extAdded_hooks_witness:
  "extAdded True ''zh'' [''tool_zoom'', ''ext-panning'']
     (Some \<lparr>langReady = True, callback = True, context_tools = None,
            events = Some ''ext-panning''\<rparr>)
     = ([AwaitLangReady ''zh'', AddClickListener ''ext-panning'', CallCallback], Inr ())
   \<and> extAdded False ''zh'' [''tool_zoom'', ''ext-panning'']
     (Some \<lparr>langReady = True, callback = True, context_tools = None,
            events = Some ''ext-panning''\<rparr>)
     = ([AddClickListener ''ext-panning'', CallCallback], Inr ())"
  using extAdded_hooks [of True "''zh''" "[''tool_zoom'', ''ext-panning'']"
          "\<lparr>langReady = True, callback = True, context_tools = None,
            events = Some ''ext-panning''\<rparr>" "\<lparr>cbCalled = False, dom_ids = [], trace = []\<rparr>"]
        extAdded_hooks [of False "''zh''" "[''tool_zoom'', ''ext-panning'']"
          "\<lparr>langReady = True, callback = True, context_tools = None,
            events = Some ''ext-panning''\<rparr>" "\<lparr>cbCalled = False, dom_ids = [], trace = []\<rparr>"]
  by (simp add: extAdded_def runCallback_def emit_def)

subsection \<open>The default layer\<close>

text \<open>
  C6. customInitLayer creates the layer named by default_layer_name, then refreshes
  the context panel and the layers list, exactly when the initial document has no
  element of class 'layer'; with at least one such element it creates no layer and
  refreshes nothing.
\<close>

theorem customInitLayer_creates_iff_no_layer:
  "(querySelectorAll_class ''layer'' initSvgDom = [] \<longrightarrow>
      customInitLayer initSvgDom
        = [ConsoleLog 0, CreateLayer default_layer_name, UpdateContextPanel, PopulateLayers])
   \<and> (querySelectorAll_class ''layer'' initSvgDom \<noteq> [] \<longrightarrow>
      customInitLayer initSvgDom
        = [ConsoleLog (length (querySelectorAll_class ''layer'' initSvgDom))])"
  by (simp add: customInitLayer_def)

theorem customInitLayer_creates_iff_no_layer_witness:
  "customInitLayer (Elem ''svg'' [] [Elem ''g'' [(''id'', ''a'')] [Text ''x'']])
     = [ConsoleLog 0, CreateLayer default_layer_name, UpdateContextPanel, PopulateLayers]
   \<and> customInitLayer
       (Elem ''svg'' [] [Elem ''g'' [(''class'', ''top layer'')] [], Elem ''g'' [(''class'', ''layers'')] []])
     = [ConsoleLog 1]"
  using customInitLayer_creates_iff_no_layer
          [of "Elem ''svg'' [] [Elem ''g'' [(''id'', ''a'')] [Text ''x'']]"]
        customInitLayer_creates_iff_no_layer
          [of "Elem ''svg'' [] [Elem ''g'' [(''class'', ''top layer'')] [],
                                Elem ''g'' [(''class'', ''layers'')] []]"]
  by (simp add: querySelectorAll_class_def classList_def getAttribute_def is_space_def)

subsection \<open>The left panel\<close>

lemma updateLeftPanel_disabled_element:
  "i < length page \<Longrightarrow> disabled (page ! i) \<Longrightarrow> updateLeftPanel (BElem i) page = (Inr False, page)"
  by (simp add: updateLeftPanel_def)

lemma updateLeftPanel_string_never_false:
  "fst (updateLeftPanel (BStr s) page) \<noteq> Inr False"
  by (simp add: updateLeftPanel_def Let_def split: option.split)

lemma find_index_id_Some:
  "find_index_id i bs = Some k \<Longrightarrow> k < length bs \<and> el_id (bs ! k) = i"
proof (induction bs arbitrary: k)
  case Nil
  then show ?case by simp
next
  case (Cons b bs)
  show ?case
  proof (cases "i \<noteq> [] \<and> el_id b = i")
    case True
    with Cons.prems show ?thesis by simp
  next
    case False
    with Cons.prems obtain j where j: "find_index_id i bs = Some j" "k = Suc j"
      by auto
    with Cons.IH [of j] show ?thesis by simp
  qed
qed

lemma unpress_tools_left_clears:
  "b \<in> set (unpress_tools_left page) \<Longrightarrow> in_tools_left b \<Longrightarrow> \<not> pressed b"
  by (auto simp: unpress_tools_left_def split: if_splits)

lemma updateLeftPanel_pressed_exclusive:
  assumes "updateLeftPanel (BStr s) page = (Inr True, page')"
      and "b \<in> set page'" and "in_tools_left b" and "pressed b"
  shows "el_id b = s"
proof -
  let ?p1 = "unpress_tools_left page"
  from assms(1) obtain i where i: "find_index_id s ?p1 = Some i"
      and p': "page' = ?p1[i := (?p1 ! i)\<lparr>pressed := True\<rparr>]"
    by (auto simp: updateLeftPanel_def Let_def split: option.splits)
  from find_index_id_Some [OF i] have il: "i < length ?p1" and iid: "el_id (?p1 ! i) = s"
    by simp_all
  from assms(2) p' have "b = (?p1 ! i)\<lparr>pressed := True\<rparr> \<or> b \<in> set ?p1"
    using set_update_subset_insert [of ?p1 i "(?p1 ! i)\<lparr>pressed := True\<rparr>"] by auto
  then show ?thesis
  proof
    assume "b = (?p1 ! i)\<lparr>pressed := True\<rparr>"
    with iid show ?thesis by simp
  next
    assume "b \<in> set ?p1"
    with unpress_tools_left_clears [of b page] assms(3,4) show ?thesis by blast
  qed
qed

text \<open>
  C7. The handlers pass the id of the button as a string, and a string has no
  'disabled' property: updateLeftPanel does not return false for a disabled button,
  and clickSelect sets the select mode although the select button is disabled.
\<close>

theorem clickSelect_ignores_disabled:
  "clickSelect
     \<lparr>lp_page = [\<lparr>el_id = ''tool_select'', disabled = True, pressed = False, in_tools_left = True\<rparr>,
              \<lparr>el_id = ''tool_path'', disabled = False, pressed = True, in_tools_left = True\<rparr>],
      canvas_mode = ''path'', cursor = ''crosshair''\<rparr>
   = (None,
      \<lparr>lp_page = [\<lparr>el_id = ''tool_select'', disabled = True, pressed = True, in_tools_left = True\<rparr>,
               \<lparr>el_id = ''tool_path'', disabled = False, pressed = False, in_tools_left = True\<rparr>],
       canvas_mode = ''select'', cursor = ''auto''\<rparr>)"
  by (simp add: clickSelect_def updateLeftPanel_def unpress_tools_left_def)

subsection \<open>Rulers\<close>





subsection \<open>Filling in missing attributes\<close>

lemma attrs_of_Elem: "attrs_of (Elem n as cs) = as # concat (map attrs_of cs)"
proof -
  have "(\<lambda>x. map attributes (elements x)) = attrs_of"
    by (rule ext) (simp add: attrs_of_def)
  then show ?thesis by (simp add: attrs_of_def map_concat comp_def)
qed

lemma attrs_of_Text: "attrs_of (Text s) = []"
  by (simp add: attrs_of_def)

lemma first_hit_Cons:
  "first_hit i (x # L) = (if has_id i x then 0 else Suc (first_hit i L))"
  by (simp add: first_hit_def)

lemma first_hit_append:
  "first_hit i (L @ R) = (if first_hit i L < length L then first_hit i L
                          else length L + first_hit i R)"
proof (induction L)
  case Nil
  then show ?case by (simp add: first_hit_def)
next
  case (Cons x L)
  then show ?case by (simp add: first_hit_Cons)
qed

lemma first_hit_le: "first_hit i L \<le> length L"
  by (simp add: first_hit_def length_takeWhile_le)

lemma first_hit_has_id: "first_hit i L < length L \<Longrightarrow> has_id i (L ! first_hit i L)"
  unfolding first_hit_def using nth_length_takeWhile [of "\<lambda>x. \<not> has_id i x" L] by blast

lemma first_hit_none: "first_hit i L = length L \<longleftrightarrow> (\<forall>x \<in> set L. \<not> has_id i x)"
proof (induction L)
  case Nil
  then show ?case by (simp add: first_hit_def)
next
  case (Cons x L)
  then show ?case by (simp add: first_hit_Cons)
qed

text \<open>The write on the tree is the write on the list of attribute lists.\<close>

lemma update_by_id_attrs:
  "(case update_by_id i f d of
      None \<Rightarrow> first_hit i (attrs_of d) = length (attrs_of d)
    | Some d' \<Rightarrow>
        first_hit i (attrs_of d) < length (attrs_of d)
        \<and> attrs_of d' = (attrs_of d)[first_hit i (attrs_of d) := f (attrs_of d ! first_hit i (attrs_of d))]
        \<and> strip_attrs d' = strip_attrs d)"
  "(case update_by_id_list i f ds of
      None \<Rightarrow> first_hit i (concat (map attrs_of ds)) = length (concat (map attrs_of ds))
    | Some ds' \<Rightarrow>
        first_hit i (concat (map attrs_of ds)) < length (concat (map attrs_of ds))
        \<and> concat (map attrs_of ds')
            = (concat (map attrs_of ds))[first_hit i (concat (map attrs_of ds))
                 := f (concat (map attrs_of ds) ! first_hit i (concat (map attrs_of ds)))]
        \<and> map strip_attrs ds' = map strip_attrs ds)"
proof (induction i f d and i f ds rule: update_by_id_update_by_id_list.induct)
  case (1 i f s)
  show ?case by (simp add: attrs_of_Text first_hit_def)
next
  case (2 i f n as cs)
  show ?case
  proof (cases "has_id i as")
    case True
    then show ?thesis by (simp add: attrs_of_Elem first_hit_Cons)
  next
    case False
    with 2 show ?thesis
      by (cases "update_by_id_list i f cs") (simp_all add: attrs_of_Elem first_hit_Cons)
  qed
next
  case (3 i f)
  show ?case by (simp add: first_hit_def)
next
  case (4 i f c cs)
  show ?case
  proof (cases "update_by_id i f c")
    case None
    with 4 have c: "first_hit i (attrs_of c) = length (attrs_of c)" by simp
    from 4(2) [OF None] None c show ?thesis
      by (cases "update_by_id_list i f cs")
         (simp_all add: first_hit_append list_update_append nth_append)
  next
    case (Some c')
    with 4(1) have c: "first_hit i (attrs_of c) < length (attrs_of c)"
      "attrs_of c' = (attrs_of c)[first_hit i (attrs_of c) := f (attrs_of c ! first_hit i (attrs_of c))]"
      "strip_attrs c' = strip_attrs c"
      by simp_all
    with Some show ?thesis
      by (simp add: first_hit_append list_update_append nth_append)
  qed
qed

lemma lookup_id_id_key: "lookup_id e = id_key (attributes e)"
  by (simp add: lookup_id_def id_key_def getAttribute_def)

lemma compare_step_attrs:
  "attrs_of (compare_step e1 d2) = fill_step (attributes e1) (attrs_of d2)
   \<and> strip_attrs (compare_step e1 d2) = strip_attrs d2"
  using update_by_id_attrs(1) [where i = "lookup_id e1" and f = "fill_missing (attributes e1)"
                                 and d = d2]
  by (cases "update_by_id (lookup_id e1) (fill_missing (attributes e1)) d2")
     (simp_all add: compare_step_def fill_step_def lookup_id_id_key)

lemma fold_compare_step_attrs:
  "attrs_of (fold compare_step es d2) = fold fill_step (map attributes es) (attrs_of d2)
   \<and> strip_attrs (fold compare_step es d2) = strip_attrs d2"
proof (induction es arbitrary: d2)
  case Nil
  then show ?case by simp
next
  case (Cons e es)
  from Cons.IH [of "compare_step e d2"] compare_step_attrs [of e d2]
  show ?case by simp
qed

text \<open>What the inner loop does to one attribute list.\<close>

lemma fill_missing_map_of:
  "map_of (fill_missing as1 as2) n
     = (case map_of as2 n of Some v \<Rightarrow> Some v | None \<Rightarrow> map_of as1 n)"
  unfolding fill_missing_def
proof (induction as1 arbitrary: as2)
  case Nil
  then show ?case by (simp split: option.split)
next
  case (Cons a as1)
  obtain m w where a: "a = (m, w)" by (cases a)
  show ?case
  proof (cases "m \<in> set (map fst as2)")
    case True
    then have "map_of as2 m \<noteq> None" by (simp add: map_of_eq_None_iff)
    with True a Cons.IH [of as2] show ?thesis
      by (auto split: option.split)
  next
    case False
    then have none: "map_of as2 m = None" by (simp add: map_of_eq_None_iff)
    have "map_of (as2 @ [(m, w)]) n
            = (case map_of as2 n of Some v \<Rightarrow> Some v | None \<Rightarrow> if n = m then Some w else None)"
      by (simp add: map_add_def split: option.split)
    with False a none Cons.IH [of "as2 @ [(m, w)]"] show ?thesis
      by (auto split: option.split)
  qed
qed

lemma fill_missing_prefix: "\<exists>ex. fill_missing as1 as2 = as2 @ ex"
  unfolding fill_missing_def
proof (induction as1 arbitrary: as2)
  case Nil
  then show ?case by simp
next
  case (Cons a as1)
  obtain m w where a: "a = (m, w)" by (cases a)
  show ?case
  proof (cases "m \<in> set (map fst as2)")
    case True
    with a Cons.IH [of as2] show ?thesis by simp
  next
    case False
    from Cons.IH [of "as2 @ [(m, w)]"] obtain ex where
      "fold (\<lambda>(name, val) as. if name \<in> set (map fst as) then as else as @ [(name, val)])
         as1 (as2 @ [(m, w)]) = (as2 @ [(m, w)]) @ ex"
      by blast
    with False a show ?thesis by simp
  qed
qed

lemma fold_fill_missing_prefix: "\<exists>ex. fold fill_missing ass as2 = as2 @ ex"
proof (induction ass arbitrary: as2)
  case Nil
  then show ?case by simp
next
  case (Cons a ass)
  from fill_missing_prefix [of a as2] obtain ex1 where 1: "fill_missing a as2 = as2 @ ex1"
    by blast
  from Cons.IH [of "fill_missing a as2"] obtain ex2 where
    "fold fill_missing ass (fill_missing a as2) = fill_missing a as2 @ ex2"
    by blast
  with 1 show ?case by simp
qed

lemma fold_fill_missing_map_of:
  "map_of (fold fill_missing ass as2) n
     = (case map_of as2 n of
          Some v \<Rightarrow> Some v
        | None \<Rightarrow> (case find (\<lambda>as1. n \<in> set (map fst as1)) ass of
                     None \<Rightarrow> None
                   | Some as1 \<Rightarrow> map_of as1 n))"
proof (induction ass arbitrary: as2)
  case Nil
  then show ?case by (simp split: option.split)
next
  case (Cons a ass)
  show ?case
  proof (cases "n \<in> set (map fst a)")
    case True
    then obtain v where "map_of a n = Some v"
      by (metis map_of_eq_None_iff not_Some_eq set_map)
    with True Cons.IH [of "fill_missing a as2"] show ?thesis
      by (simp add: fill_missing_map_of split: option.split)
  next
    case False
    then have "map_of a n = None" by (simp add: map_of_eq_None_iff)
    with False Cons.IH [of "fill_missing a as2"] show ?thesis
      by (simp add: fill_missing_map_of split: option.split)
  qed
qed

text \<open>The ids, and with them every search by id, stay as they are.\<close>

lemma has_id_fill_missing:
  "has_id i as2 \<Longrightarrow> has_id k (fill_missing as1 as2) = has_id k as2"
  by (simp add: has_id_def fill_missing_map_of)

lemma first_hit_cong:
  "map (has_id k) L' = map (has_id k) L \<Longrightarrow> first_hit k L' = first_hit k L"
proof (induction L arbitrary: L')
  case Nil
  then show ?case by (simp add: first_hit_def)
next
  case (Cons x L)
  from Cons.prems obtain y M where L': "L' = y # M" by (cases L') auto
  with Cons.prems have h: "has_id k y = has_id k x" and t: "map (has_id k) M = map (has_id k) L"
    by simp_all
  from Cons.IH [OF t] h L' show ?case by (simp add: first_hit_Cons)
qed

lemma fill_step_length: "length (fill_step as1 L) = length L"
  by (simp add: fill_step_def)

lemma fill_step_has_id: "map (has_id k) (fill_step as1 L) = map (has_id k) L"
proof (cases "first_hit (id_key as1) L < length L")
  case True
  from first_hit_has_id [OF True]
  have "has_id k (fill_missing as1 (L ! first_hit (id_key as1) L))
          = has_id k (L ! first_hit (id_key as1) L)"
    by (rule has_id_fill_missing)
  with True show ?thesis
    by (simp add: fill_step_def map_update list_update_same_conv)
next
  case False
  then show ?thesis by (simp add: fill_step_def)
qed

lemma first_hit_fill_step: "first_hit k (fill_step as1 L) = first_hit k L"
  by (rule first_hit_cong) (rule fill_step_has_id)

lemma fill_step_nth:
  "j < length L \<Longrightarrow>
   fill_step as1 L ! j
     = (if first_hit (id_key as1) L = j then fill_missing as1 (L ! j) else L ! j)"
  by (auto simp: fill_step_def)

text \<open>
  An element of the second document ends with what the rounds for the matching
  elements of the first document, in their order, add to it.
\<close>

lemma fold_fill_step_nth:
  "j < length L \<Longrightarrow>
   length (fold fill_step ass L) = length L
   \<and> fold fill_step ass L ! j
       = fold fill_missing (filter (\<lambda>as1. first_hit (id_key as1) L = j) ass) (L ! j)"
proof (induction ass arbitrary: L)
  case Nil
  then show ?case by simp
next
  case (Cons a ass)
  have len: "length (fill_step a L) = length L" by (rule fill_step_length)
  with Cons.prems have j: "j < length (fill_step a L)" by simp
  have same: "(\<lambda>as1. first_hit (id_key as1) (fill_step a L) = j)
                = (\<lambda>as1. first_hit (id_key as1) L = j)"
    by (simp add: first_hit_fill_step)
  from Cons.IH [OF j] len same fill_step_nth [OF Cons.prems, of a]
  show ?case by simp
qed

lemma index_of_id_first_hit:
  "index_of_id i d
     = (if first_hit i (attrs_of d) < length (attrs_of d)
        then Some (first_hit i (attrs_of d)) else None)"
proof -
  have 1: "(\<exists>e \<in> set (elements d). has_id i (attributes e))
             \<longleftrightarrow> first_hit i (attrs_of d) \<noteq> length (attrs_of d)"
    using first_hit_none [of i "attrs_of d"] by (auto simp: attrs_of_def)
  have 2: "length (takeWhile (\<lambda>e. \<not> has_id i (attributes e)) (elements d))
             = first_hit i (attrs_of d)"
    by (simp add: first_hit_def attrs_of_def takeWhile_map comp_def)
  from first_hit_le [of i "attrs_of d"] 1 2 show ?thesis
    by (auto simp: index_of_id_def)
qed

lemma find_filter: "find P (filter Q xs) = find (\<lambda>x. Q x \<and> P x) xs"
  by (induction xs) auto

lemma find_map: "find P (map f xs) = map_option f (find (\<lambda>x. P (f x)) xs)"
  by (induction xs) auto

lemma fold_fill_step_length: "length (fold fill_step ass L) = length L"
  by (induction ass arbitrary: L) (simp_all add: fill_step_length)

lemma compareAndFillSvgDom_nth:
  assumes k: "k < length (elements d2)"
  shows "length (elements (compareAndFillSvgDom d1 d2)) = length (elements d2)"
    and "attributes (elements (compareAndFillSvgDom d1 d2) ! k)
           = fold fill_missing
               (filter (\<lambda>as1. first_hit (id_key as1) (attrs_of d2) = k) (attrs_of d1))
               (attributes (elements d2 ! k))"
proof -
  let ?r = "compareAndFillSvgDom d1 d2"
  have a: "attrs_of ?r = fold fill_step (attrs_of d1) (attrs_of d2)"
    using fold_compare_step_attrs [of "elements d1" d2]
    by (simp add: compareAndFillSvgDom_def attrs_of_def)
  from k have k': "k < length (attrs_of d2)" by (simp add: attrs_of_def)
  from fold_fill_step_nth [OF k', of "attrs_of d1"] a
  have len: "length (attrs_of ?r) = length (attrs_of d2)"
    and nth: "attrs_of ?r ! k
                = fold fill_missing
                    (filter (\<lambda>as1. first_hit (id_key as1) (attrs_of d2) = k) (attrs_of d1))
                    (attrs_of d2 ! k)"
    by simp_all
  from len show "length (elements ?r) = length (elements d2)"
    by (simp add: attrs_of_def)
  then have "k < length (elements ?r)" using k by simp
  then have "attrs_of ?r ! k = attributes (elements ?r ! k)"
    by (simp add: attrs_of_def)
  moreover from k have "attrs_of d2 ! k = attributes (elements d2 ! k)"
    by (simp add: attrs_of_def)
  ultimately show "attributes (elements ?r ! k)
           = fold fill_missing
               (filter (\<lambda>as1. first_hit (id_key as1) (attrs_of d2) = k) (attrs_of d1))
               (attributes (elements d2 ! k))"
    using nth by simp
qed

lemma donor_find:
  assumes k: "k < length (elements d2)"
  shows "find (\<lambda>as1. n \<in> set (map fst as1))
           (filter (\<lambda>as1. first_hit (id_key as1) (attrs_of d2) = k) (attrs_of d1))
         = map_option attributes (donor d1 d2 k n)"
proof -
  from k have k': "k < length (attrs_of d2)" by (simp add: attrs_of_def)
  have "index_of_id (lookup_id e1) d2 = Some k
          \<longleftrightarrow> first_hit (id_key (attributes e1)) (attrs_of d2) = k" for e1
    using k' by (auto simp: index_of_id_first_hit lookup_id_id_key)
  then show ?thesis
    by (simp add: donor_def attrs_of_def find_filter find_map hasAttribute_def)
qed

text \<open>
  C9 as it stands fails when two elements of the first document have the same
  id: both find the same element of the second document, the first one adds its
  attribute, and the value of the second one is not copied.
\<close>

theorem compareAndFillSvgDom_duplicate_id_counterexample:
  "lookup_id (elements (Elem ''svg'' [(''id'', ''r'')]
                 [Elem ''g'' [(''id'', ''a''), (''x'', ''1'')] [],
                  Elem ''g'' [(''id'', ''a''), (''x'', ''2'')] []]) ! 2) = ''a''
   \<and> getAttribute ''x'' (elements (Elem ''svg'' [(''id'', ''r'')]
                 [Elem ''g'' [(''id'', ''a''), (''x'', ''1'')] [],
                  Elem ''g'' [(''id'', ''a''), (''x'', ''2'')] []]) ! 2) = Some ''2''
   \<and> map_option (hasAttribute ''x'')
         (getElementById ''a'' (Elem ''svg'' [(''id'', ''r'')] [Elem ''g'' [(''id'', ''a'')] []]))
       = Some False
   \<and> map_option (getAttribute ''x'')
         (getElementById ''a''
            (compareAndFillSvgDom
               (Elem ''svg'' [(''id'', ''r'')]
                 [Elem ''g'' [(''id'', ''a''), (''x'', ''1'')] [],
                  Elem ''g'' [(''id'', ''a''), (''x'', ''2'')] []])
               (Elem ''svg'' [(''id'', ''r'')] [Elem ''g'' [(''id'', ''a'')] []])))
       = Some (Some ''1'')"
  by (simp add: lookup_id_def getAttribute_def hasAttribute_def getElementById_def has_id_def
        compareAndFillSvgDom_def compare_step_def fill_missing_def)

text \<open>
  C9, amended. The result is the second document with the same elements, text and
  shape. Every attribute an element had keeps its place and value. An element that no
  lookup from the first document finds is unchanged. A name missing on an element is
  added exactly when some element of the first document whose lookup finds it carries
  the name, with the value of the first such element in document order. The lookup id
  of an element is its id attribute, or the string null when it has none.
\<close>

theorem compareAndFillSvgDom_adds_missing:
  "strip_attrs (compareAndFillSvgDom d1 d2) = strip_attrs d2
   \<and> length (elements (compareAndFillSvgDom d1 d2)) = length (elements d2)
   \<and> (\<forall>k < length (elements d2).
        take (length (attributes (elements d2 ! k)))
          (attributes (elements (compareAndFillSvgDom d1 d2) ! k))
          = attributes (elements d2 ! k)
        \<and> ((\<forall>e1 \<in> set (elements d1). index_of_id (lookup_id e1) d2 \<noteq> Some k) \<longrightarrow>
             attributes (elements (compareAndFillSvgDom d1 d2) ! k)
               = attributes (elements d2 ! k))
        \<and> (\<forall>n. getAttribute n (elements (compareAndFillSvgDom d1 d2) ! k)
                 = (case getAttribute n (elements d2 ! k) of
                      Some v \<Rightarrow> Some v
                    | None \<Rightarrow> (case donor d1 d2 k n of
                                 None \<Rightarrow> None
                               | Some e1 \<Rightarrow> getAttribute n e1))))"
proof -
  let ?r = "compareAndFillSvgDom d1 d2"
  have shape: "strip_attrs ?r = strip_attrs d2"
    using fold_compare_step_attrs [of "elements d1" d2] by (simp add: compareAndFillSvgDom_def)
  have len: "length (elements ?r) = length (elements d2)"
  proof -
    have "attrs_of ?r = fold fill_step (attrs_of d1) (attrs_of d2)"
      using fold_compare_step_attrs [of "elements d1" d2]
      by (simp add: compareAndFillSvgDom_def attrs_of_def)
    then have "length (attrs_of ?r) = length (attrs_of d2)"
      by (simp add: fold_fill_step_length)
    then show ?thesis by (simp add: attrs_of_def)
  qed
  have each: "take (length (attributes (elements d2 ! k))) (attributes (elements ?r ! k))
          = attributes (elements d2 ! k)
        \<and> ((\<forall>e1 \<in> set (elements d1). index_of_id (lookup_id e1) d2 \<noteq> Some k) \<longrightarrow>
             attributes (elements ?r ! k) = attributes (elements d2 ! k))
        \<and> (\<forall>n. getAttribute n (elements ?r ! k)
                 = (case getAttribute n (elements d2 ! k) of
                      Some v \<Rightarrow> Some v
                    | None \<Rightarrow> (case donor d1 d2 k n of
                                 None \<Rightarrow> None
                               | Some e1 \<Rightarrow> getAttribute n e1)))"
    if k: "k < length (elements d2)" for k
  proof -
    let ?ms = "filter (\<lambda>as1. first_hit (id_key as1) (attrs_of d2) = k) (attrs_of d1)"
    note nth = compareAndFillSvgDom_nth(2) [OF k, of d1]
    from fold_fill_missing_prefix [of ?ms "attributes (elements d2 ! k)"] nth
    have 1: "take (length (attributes (elements d2 ! k))) (attributes (elements ?r ! k))
               = attributes (elements d2 ! k)"
      by auto
    have 2: "attributes (elements ?r ! k) = attributes (elements d2 ! k)"
      if none: "\<forall>e1 \<in> set (elements d1). index_of_id (lookup_id e1) d2 \<noteq> Some k"
    proof -
      from k have k': "k < length (attrs_of d2)" by (simp add: attrs_of_def)
      have "first_hit (id_key as1) (attrs_of d2) \<noteq> k" if "as1 \<in> set (attrs_of d1)" for as1
      proof -
        from that obtain e1 where e1: "e1 \<in> set (elements d1)" "as1 = attributes e1"
          by (auto simp: attrs_of_def)
        with none have "index_of_id (lookup_id e1) d2 \<noteq> Some k" by blast
        with e1 k' show ?thesis
          by (auto simp: index_of_id_first_hit lookup_id_id_key split: if_splits)
      qed
      then have "?ms = []" by (simp add: filter_empty_conv)
      with nth show ?thesis by simp
    qed
    have 3: "getAttribute n (elements ?r ! k)
                 = (case getAttribute n (elements d2 ! k) of
                      Some v \<Rightarrow> Some v
                    | None \<Rightarrow> (case donor d1 d2 k n of
                                 None \<Rightarrow> None
                               | Some e1 \<Rightarrow> getAttribute n e1))" for n
      using fold_fill_missing_map_of [of ?ms "attributes (elements d2 ! k)" n]
            donor_find [OF k, of n d1]
      by (simp add: getAttribute_def nth split: option.split)
    from 1 2 3 show ?thesis by blast
  qed
  from shape len each show ?thesis by blast
qed

theorem compareAndFillSvgDom_adds_missing_witness:
  "compareAndFillSvgDom
     (Elem ''svg'' [(''id'', ''r''), (''width'', ''10'')]
        [Elem ''g'' [(''id'', ''a''), (''x'', ''1'')] [],
         Elem ''g'' [(''id'', ''a''), (''x'', ''2''), (''y'', ''3'')] [],
         Elem ''g'' [(''fill'', ''red'')] []])
     (Elem ''svg'' [(''id'', ''r'')]
        [Elem ''g'' [(''id'', ''a''), (''y'', ''0'')] [Text ''t''],
         Elem ''g'' [(''id'', ''b'')] []])
   = Elem ''svg'' [(''id'', ''r''), (''width'', ''10'')]
        [Elem ''g'' [(''id'', ''a''), (''y'', ''0''), (''x'', ''1'')] [Text ''t''],
         Elem ''g'' [(''id'', ''b'')] []]"
  using compareAndFillSvgDom_adds_missing
          [of "Elem ''svg'' [(''id'', ''r''), (''width'', ''10'')]
                 [Elem ''g'' [(''id'', ''a''), (''x'', ''1'')] [],
                  Elem ''g'' [(''id'', ''a''), (''x'', ''2''), (''y'', ''3'')] [],
                  Elem ''g'' [(''fill'', ''red'')] []]"
              "Elem ''svg'' [(''id'', ''r'')]
                 [Elem ''g'' [(''id'', ''a''), (''y'', ''0'')] [Text ''t''],
                  Elem ''g'' [(''id'', ''b'')] []]"]
  by (simp add: compareAndFillSvgDom_def compare_step_def fill_missing_def lookup_id_def
        getAttribute_def has_id_def)

subsection \<open>Metadata\<close>















lemma no_meta_flat: "no_meta d \<Longrightarrow> flat d"
  by (induction d) auto

lemma no_meta_metas: "no_meta d \<Longrightarrow> metas d = []"
  by (induction d) auto






























end
